theory Spec2Isabelle
  imports Main "HOL-Library.AList"
begin

section \<open>RailJS: the event bus of \<open>rail.js\<close>\<close>

text \<open>
  The class \<open>Rail\<close> is embedded as a record of its fields together with the parts of
  the JavaScript runtime its methods act on: the object heap that holds event payloads,
  the store of listener arrays (the \<open>Map\<close> from event names holds references to arrays,
  and \<open>push\<close> mutates an array in place), the pending timers and the promises created
  by \<open>waitFor\<close>. Every method takes the state and returns the new one.
\<close>

subsection \<open>JavaScript values and the heap\<close>

type_synonym addr = nat

text \<open>
  A value is a primitive or a reference to a heap object. Numbers are integers
  (timestamps and counters are the only numbers the bus computes with).
\<close>

datatype jsval =
    VUndefined
  | VNull
  | VBool bool
  | VNum int
  | VStr string
  | VRef addr

text \<open>
  Heap objects: a \<open>Date\<close> with its time value, an array (dense), a \<open>RegExp\<close> with
  its source and flags, and a plain object: its own enumerable string-keyed data
  properties in enumeration order, its prototype being \<open>Object.prototype\<close>.
\<close>

datatype jsobj =
    ODate int
  | OArray "jsval list"
  | ORegExp string string
  | OPlain "(string \<times> jsval) list"

type_synonym heap = "jsobj list"

text \<open>A thrown \<open>Error\<close> object, by constructor; \<open>message\<close> is \<open>error.message\<close>.\<close>

datatype error = Error string | TypeError string | RangeError string

fun message :: "error \<Rightarrow> string" where
  "message (Error m) = m"
| "message (TypeError m) = m"
| "message (RangeError m) = m"

subsection \<open>The state of a bus\<close>

text \<open>
  A callback is a function value. User functions are named by a number and given their
  behaviour by an environment (below); \<open>WaitForCb timer promise\<close> is the closure that
  \<open>waitFor\<close> registers; \<open>NotCallable\<close> stands for any value whose \<open>typeof\<close> is not
  \<open>'function'\<close>.
\<close>

datatype callback = Fn nat | WaitForCb nat nat | NotCallable

record listener =
  callback :: callback
  module :: string
  idL :: nat

record module_obj =
  mod_name :: string
  connect :: "nat option"
  disconnect :: "nat option"

record history_entry =
  event :: string
  data :: jsval
  timestamp :: int

text \<open>
  A record of the dispatch loop, kept for reasoning only: which emission (numbered in
  the order the emissions start) dispatched to which listener, and the payload value the
  callback was called with (\<open>None\<close> when preparing the payload threw, so that the
  callback was not called).
\<close>

record dispatch =
  d_emission :: nat
  d_event :: string
  d_listener :: listener
  d_payload :: "jsval option"

datatype promise_state = Pending | Resolved jsval | Rejected error

record timer =
  t_active :: bool
  t_delay :: int
  t_promise :: nat
  t_event :: string

record rail =
  name :: string
  debug :: bool
  clone :: bool
  listeners :: "(string \<times> addr) list"
  modules :: "(string \<times> module_obj) list"
  eventHistory :: "history_entry list"
  listenerIdCounter :: nat
  arrays :: "listener list list"
  heap :: heap
  now :: int
  timers :: "timer list"
  promises :: "promise_state list"
  emissions :: nat
  dispatched :: "dispatch list"

subsection \<open>Deep clone\<close>

text \<open>
  \<open>obj.hasOwnProperty(key)\<close>: the property \<open>hasOwnProperty\<close> is looked up on the object
  itself first. An own data property of that name shadows the method of
  \<open>Object.prototype\<close>; a payload holds no function values, so calling it throws a
  \<open>TypeError\<close>. Otherwise the built-in answers whether \<open>key\<close> is an own property.
\<close>

definition hasOwnProperty :: "(string \<times> jsval) list \<Rightarrow> string \<Rightarrow> error + bool" where
  "hasOwnProperty obj key =
     (case map_of obj ''hasOwnProperty'' of
        Some v \<Rightarrow> Inl (TypeError ''obj.hasOwnProperty is not a function'')
      | None \<Rightarrow> Inr (map_of obj key \<noteq> None))"

text \<open>
  \<open>cloned[key] = v\<close> on the fresh object \<open>cloned = {}\<close>: an ordinary key is created, or
  overwritten in place. The key \<open>__proto__\<close> reaches the accessor that
  \<open>Object.prototype\<close> inherits to every plain object, which creates no own property
  (it changes the prototype of \<open>cloned\<close>, which this model does not record).
\<close>

definition assign_prop :: "(string \<times> jsval) list \<Rightarrow> string \<Rightarrow> jsval \<Rightarrow> (string \<times> jsval) list" where
  "assign_prop cloned key v =
     (if key = ''__proto__'' then cloned else AList.update key v cloned)"

text \<open>
  \<open>_deepClone(obj)\<close>. The first argument bounds the depth of the recursion; the result
  \<open>None\<close> says that the bound was reached (or that a reference points outside the heap).
  \<open>Some (Inl e)\<close> is a throw, \<open>Some (Inr (h', v'))\<close> the heap after the allocations
  and the value returned. \<open>cloneItems\<close> is the callback of \<open>obj.map\<close> over the elements,
  \<open>cloneProps\<close> the \<open>for (const key in obj)\<close> loop with \<open>cloned\<close> as accumulator; the
  new array or object is placed on the heap when it is returned.
\<close>

fun deepClone :: "nat \<Rightarrow> heap \<Rightarrow> jsval \<Rightarrow> (error + heap \<times> jsval) option"
  and cloneItems :: "nat \<Rightarrow> heap \<Rightarrow> jsval list \<Rightarrow> (error + heap \<times> jsval list) option"
  and cloneProps :: "nat \<Rightarrow> heap \<Rightarrow> (string \<times> jsval) list \<Rightarrow> (string \<times> jsval) list
       \<Rightarrow> (string \<times> jsval) list \<Rightarrow> (error + heap \<times> (string \<times> jsval) list) option"
where
  "deepClone n h VUndefined = Some (Inr (h, VUndefined))"
| "deepClone n h VNull = Some (Inr (h, VNull))"
| "deepClone n h (VBool b) = Some (Inr (h, VBool b))"
| "deepClone n h (VNum i) = Some (Inr (h, VNum i))"
| "deepClone n h (VStr s) = Some (Inr (h, VStr s))"
| "deepClone 0 h (VRef a) = None"
| "deepClone (Suc n) h (VRef a) =
     (if a < length h then
        (case h ! a of
           ODate t \<Rightarrow> Some (Inr (h @ [ODate t], VRef (length h)))
         | OArray items \<Rightarrow>
             (case cloneItems n h items of
                None \<Rightarrow> None
              | Some (Inl e) \<Rightarrow> Some (Inl e)
              | Some (Inr (h', items')) \<Rightarrow> Some (Inr (h' @ [OArray items'], VRef (length h'))))
         | ORegExp source flags \<Rightarrow> Some (Inr (h @ [ORegExp source flags], VRef (length h)))
         | OPlain obj \<Rightarrow>
             (case cloneProps n h obj [] obj of
                None \<Rightarrow> None
              | Some (Inl e) \<Rightarrow> Some (Inl e)
              | Some (Inr (h', cloned)) \<Rightarrow> Some (Inr (h' @ [OPlain cloned], VRef (length h')))))
      else None)"
| "cloneItems n h [] = Some (Inr (h, []))"
| "cloneItems n h (item # items) =
     (case deepClone n h item of
        None \<Rightarrow> None
      | Some (Inl e) \<Rightarrow> Some (Inl e)
      | Some (Inr (h', item')) \<Rightarrow>
          (case cloneItems n h' items of
             None \<Rightarrow> None
           | Some (Inl e) \<Rightarrow> Some (Inl e)
           | Some (Inr (h'', items')) \<Rightarrow> Some (Inr (h'', item' # items'))))"
| "cloneProps n h obj cloned [] = Some (Inr (h, cloned))"
| "cloneProps n h obj cloned ((key, v) # rest) =
     (case hasOwnProperty obj key of
        Inl e \<Rightarrow> Some (Inl e)
      | Inr False \<Rightarrow> cloneProps n h obj cloned rest
      | Inr True \<Rightarrow>
          (case deepClone n h v of
             None \<Rightarrow> None
           | Some (Inl e) \<Rightarrow> Some (Inl e)
           | Some (Inr (h', v')) \<Rightarrow> cloneProps n h' obj (assign_prop cloned key v') rest))"

text \<open>
  The method as the bus calls it. A recursion deeper than the number of heap cells has
  visited some cell twice, so it follows a cycle and never ends: the engine throws a
  \<open>RangeError\<close> when its stack is exhausted.
\<close>

definition this_deepClone :: "heap \<Rightarrow> jsval \<Rightarrow> error + heap \<times> jsval" where
  "this_deepClone h v =
     (case deepClone (Suc (length h)) h v of
        None \<Rightarrow> Inl (RangeError ''Maximum call stack size exceeded'')
      | Some r \<Rightarrow> r)"

subsection \<open>The value a reference stands for\<close>

text \<open>
  \<open>reify n h v\<close> reads the value \<open>v\<close> out of the heap as a tree, following references
  at most \<open>n\<close> deep; every node that is an object carries the address of its heap cell.
  The result is \<open>None\<close> when the structure is deeper than \<open>n\<close> (a cyclic one is deeper
  than any \<open>n\<close>). \<open>shape\<close> forgets the addresses: two values are deeply equal when
  their trees have the same shape. \<open>set_jtree t\<close> is the set of cells of \<open>t\<close>.
\<close>

datatype 'a jtree =
    TUndefined
  | TNull
  | TBool bool
  | TNum int
  | TStr string
  | TDate 'a int
  | TArray 'a "'a jtree list"
  | TRegExp 'a string string
  | TObject 'a "(string \<times> 'a jtree) list"

fun reify :: "nat \<Rightarrow> heap \<Rightarrow> jsval \<Rightarrow> addr jtree option"
  and reify_items :: "nat \<Rightarrow> heap \<Rightarrow> jsval list \<Rightarrow> addr jtree list option"
  and reify_props :: "nat \<Rightarrow> heap \<Rightarrow> (string \<times> jsval) list \<Rightarrow> (string \<times> addr jtree) list option"
where
  "reify n h VUndefined = Some TUndefined"
| "reify n h VNull = Some TNull"
| "reify n h (VBool b) = Some (TBool b)"
| "reify n h (VNum i) = Some (TNum i)"
| "reify n h (VStr s) = Some (TStr s)"
| "reify 0 h (VRef a) = None"
| "reify (Suc n) h (VRef a) =
     (if a < length h then
        (case h ! a of
           ODate t \<Rightarrow> Some (TDate a t)
         | OArray items \<Rightarrow> map_option (TArray a) (reify_items n h items)
         | ORegExp source flags \<Rightarrow> Some (TRegExp a source flags)
         | OPlain obj \<Rightarrow> map_option (TObject a) (reify_props n h obj))
      else None)"
| "reify_items n h [] = Some []"
| "reify_items n h (v # vs) =
     (case reify n h v of
        None \<Rightarrow> None
      | Some t \<Rightarrow> map_option ((#) t) (reify_items n h vs))"
| "reify_props n h [] = Some []"
| "reify_props n h ((k, v) # ps) =
     (case reify n h v of
        None \<Rightarrow> None
      | Some t \<Rightarrow> map_option ((#) (k, t)) (reify_props n h ps))"

definition shape :: "'a jtree \<Rightarrow> unit jtree" where
  "shape t = map_jtree (\<lambda>a. ()) t"

fun safe_keys :: "'a jtree \<Rightarrow> bool" where
  "safe_keys (TArray a ts) = list_all safe_keys ts"
| "safe_keys (TObject a ps) =
     (distinct (map fst ps) \<and> ''hasOwnProperty'' \<notin> set (map fst ps) \<and>
      ''__proto__'' \<notin> set (map fst ps) \<and> list_all (\<lambda>p. safe_keys (snd p)) ps)"
| "safe_keys t = True"

text \<open>
  \<open>clone_ok n\<close>: cloning a value that is a tree at most \<open>n\<close> deep and has safe keys
  returns, gives a value of the same shape and allocates all its cells.
\<close>

definition clone_ok :: "nat \<Rightarrow> bool" where
  "clone_ok n \<longleftrightarrow>
     (\<forall>h v t. reify n h v = Some t \<longrightarrow> safe_keys t \<longrightarrow>
        (\<exists>hs v' t'. deepClone n h v = Some (Inr (h @ hs, v')) \<and>
           reify n (h @ hs) v' = Some t' \<and> shape t' = shape t \<and>
           set_jtree t' \<subseteq> {length h..<length h + length hs}))"

subsection \<open>History\<close>

text \<open>
  \<open>Array.prototype.slice(start)\<close> with one argument: a negative start counts from the
  end, and the start is clamped to the array.
\<close>

definition slice_from :: "'a list \<Rightarrow> int \<Rightarrow> 'a list" where
  "slice_from xs start =
     (let len = int (length xs);
          k = (if start < 0 then max (len + start) 0 else min start len)
      in drop (nat k) xs)"

text \<open>\<open>getHistory(limit = 10) { return this.eventHistory.slice(-limit); }\<close>\<close>

definition getHistory :: "rail \<Rightarrow> int option \<Rightarrow> history_entry list" where
  "getHistory w limit =
     slice_from (eventHistory w) (- (case limit of None \<Rightarrow> 10 | Some l \<Rightarrow> l))"

definition clearHistory :: "rail \<Rightarrow> rail" where
  "clearHistory w = w\<lparr>eventHistory := []\<rparr>"

subsection \<open>Listener registry\<close>

text \<open>
  The \<open>Map\<close> objects are association lists in insertion order: \<open>map_of\<close> is \<open>get\<close>,
  \<open>AList.update\<close> is \<open>set\<close> (an existing key keeps its place) and \<open>AList.delete\<close> is
  \<open>delete\<close>. \<open>listenersOf\<close> reads the array an event is mapped to.
\<close>

definition listenersOf :: "rail \<Rightarrow> string \<Rightarrow> listener list" where
  "listenersOf w ev = (case map_of (listeners w) ev of None \<Rightarrow> [] | Some a \<Rightarrow> arrays w ! a)"

text \<open>
  \<open>on(event, callback, moduleName = 'anonymous')\<close>. The result is the identifier bound in
  the unsubscribe function \<open>() => this.off(event, listenerId)\<close>.
\<close>

definition on :: "rail \<Rightarrow> string \<Rightarrow> callback \<Rightarrow> string option \<Rightarrow> error + nat \<times> rail" where
  "on w ev cb moduleName =
     (if cb = NotCallable then Inl (Error ''Callback must be a function'')
      else
        let mn = (case moduleName of None \<Rightarrow> ''anonymous'' | Some m \<Rightarrow> m);
            w1 = (case map_of (listeners w) ev of
                    None \<Rightarrow> w\<lparr>listeners := listeners w @ [(ev, length (arrays w))],
                               arrays := arrays w @ [[]]\<rparr>
                  | Some a \<Rightarrow> w);
            listenerId = listenerIdCounter w1 + 1;
            a = (case map_of (listeners w1) ev of None \<Rightarrow> length (arrays w1) | Some a \<Rightarrow> a)
        in Inr (listenerId,
             w1\<lparr>listenerIdCounter := listenerId,
                arrays := (arrays w1)[a := arrays w1 ! a @
                   [\<lparr>callback = cb, module = mn, idL = listenerId\<rparr>]]\<rparr>))"

definition off :: "rail \<Rightarrow> string \<Rightarrow> nat \<Rightarrow> bool \<times> rail" where
  "off w ev listenerId =
     (case map_of (listeners w) ev of
        None \<Rightarrow> (False, w)
      | Some a \<Rightarrow>
          let filtered = filter (\<lambda>l. idL l \<noteq> listenerId) (arrays w ! a)
          in if length filtered = 0
             then (True, w\<lparr>listeners := AList.delete ev (listeners w)\<rparr>)
             else (True, w\<lparr>listeners := AList.update ev (length (arrays w)) (listeners w),
                            arrays := arrays w @ [filtered]\<rparr>))"

text \<open>
  The loop of \<open>detach\<close> over the entries of \<open>this.listeners\<close>. Only the entry being
  visited is deleted or replaced, so the entries visited are the ones present when the
  loop starts.
\<close>

fun removeListeners :: "string \<Rightarrow> (string \<times> addr) list \<Rightarrow> rail \<Rightarrow> rail" where
  "removeListeners moduleName [] w = w"
| "removeListeners moduleName ((ev, a) # entries) w =
     (let filtered = filter (\<lambda>l. module l \<noteq> moduleName) (arrays w ! a)
      in removeListeners moduleName entries
           (if length filtered = 0
            then w\<lparr>listeners := AList.delete ev (listeners w)\<rparr>
            else w\<lparr>listeners := AList.update ev (length (arrays w)) (listeners w),
                   arrays := arrays w @ [filtered]\<rparr>))"

definition getModules :: "rail \<Rightarrow> string list" where
  "getModules w = map fst (modules w)"

definition getEvents :: "rail \<Rightarrow> (string \<times> string list) list" where
  "getEvents w = map (\<lambda>(ev, a). (ev, map module (arrays w ! a))) (listeners w)"

definition setClone :: "rail \<Rightarrow> bool \<Rightarrow> rail" where
  "setClone w enabled = w\<lparr>clone := enabled\<rparr>"

definition setDebug :: "rail \<Rightarrow> bool \<Rightarrow> rail" where
  "setDebug w enabled = w\<lparr>debug := enabled\<rparr>"

subsection \<open>Callbacks\<close>

text \<open>
  What a user function does when it is called is a script: calls of the public
  operations of the bus, in order, and then a return or a throw. A returned value is a
  plain value or a promise, which is fulfilled or rejected later, or never. The script of
  function \<open>f\<close> is \<open>env f w v\<close>: it may depend on the state \<open>w\<close> of the bus at the call
  and on the argument \<open>v\<close>. An operation that throws inside a script ends the script
  with that throw.
\<close>

datatype attach_arg = NotAnObject | ModuleObj jsval "nat option" "nat option"

datatype action =
    On string callback "string option"
  | Off string nat
  | Emit string jsval
  | Attach attach_arg
  | Detach string
  | SetClone bool
  | SetDebug bool
  | ClearHistory

datatype settle = Fulfils jsval | Rejects error | Never

datatype retval = Plain jsval | Promise settle

datatype outcome = Return retval | Throw error

type_synonym script = "action list \<times> outcome"

type_synonym env = "nat \<Rightarrow> rail \<Rightarrow> jsval \<Rightarrow> script"

text \<open>
  The operations that run callbacks call each other (a callback of \<open>emit\<close> may call
  \<open>attach\<close>, whose \<open>connect\<close> may call \<open>emit\<close>). Each is defined over an \<open>api\<close>: the
  three operations as the calls nested inside it see them. The result \<open>None\<close> of an
  operation says that it does not return.
\<close>

record api =
  api_emit :: "rail \<Rightarrow> string \<Rightarrow> jsval \<Rightarrow> (nat \<times> rail) option"
  api_attach :: "rail \<Rightarrow> attach_arg \<Rightarrow> ((error + unit) \<times> rail) option"
  api_detach :: "rail \<Rightarrow> string \<Rightarrow> (bool \<times> rail) option"

definition run_action :: "api \<Rightarrow> rail \<Rightarrow> action \<Rightarrow> (error option \<times> rail) option" where
  "run_action rec w act =
     (case act of
        On ev cb mn \<Rightarrow>
          (case on w ev cb mn of Inl e \<Rightarrow> Some (Some e, w) | Inr (i, w') \<Rightarrow> Some (None, w'))
      | Off ev i \<Rightarrow> Some (None, snd (off w ev i))
      | Emit ev d \<Rightarrow>
          (case api_emit rec w ev d of None \<Rightarrow> None | Some (n, w') \<Rightarrow> Some (None, w'))
      | Attach m \<Rightarrow>
          (case api_attach rec w m of
             None \<Rightarrow> None
           | Some (Inl e, w') \<Rightarrow> Some (Some e, w')
           | Some (Inr u, w') \<Rightarrow> Some (None, w'))
      | Detach n \<Rightarrow>
          (case api_detach rec w n of None \<Rightarrow> None | Some (b, w') \<Rightarrow> Some (None, w'))
      | SetClone b \<Rightarrow> Some (None, setClone w b)
      | SetDebug b \<Rightarrow> Some (None, setDebug w b)
      | ClearHistory \<Rightarrow> Some (None, clearHistory w))"

fun run_actions :: "api \<Rightarrow> rail \<Rightarrow> action list \<Rightarrow> (error option \<times> rail) option" where
  "run_actions rec w [] = Some (None, w)"
| "run_actions rec w (act # acts) =
     (case run_action rec w act of
        None \<Rightarrow> None
      | Some (Some e, w') \<Rightarrow> Some (Some e, w')
      | Some (None, w') \<Rightarrow> run_actions rec w' acts)"

definition run_script :: "api \<Rightarrow> rail \<Rightarrow> script \<Rightarrow> (outcome \<times> rail) option" where
  "run_script rec w sc =
     (case run_actions rec w (fst sc) of
        None \<Rightarrow> None
      | Some (Some e, w') \<Rightarrow> Some (Throw e, w')
      | Some (None, w') \<Rightarrow> Some (snd sc, w'))"

text \<open>
  The closure registered by \<open>waitFor\<close>:
  \<open>(data) => { clearTimeout(timer); unsubscribe(); resolve(data); }\<close>, where
  \<open>unsubscribe\<close> removes the listener the closure was registered as.
\<close>

definition clearTimeout :: "rail \<Rightarrow> nat \<Rightarrow> rail" where
  "clearTimeout w t =
     (if t < length (timers w) then w\<lparr>timers := (timers w)[t := (timers w ! t)\<lparr>t_active := False\<rparr>]\<rparr>
      else w)"

definition settle_promise :: "rail \<Rightarrow> nat \<Rightarrow> promise_state \<Rightarrow> rail" where
  "settle_promise w p st =
     (if p < length (promises w) \<and> promises w ! p = Pending
      then w\<lparr>promises := (promises w)[p := st]\<rparr> else w)"

definition waitFor_callback :: "rail \<Rightarrow> string \<Rightarrow> nat \<Rightarrow> nat \<Rightarrow> nat \<Rightarrow> jsval \<Rightarrow> rail" where
  "waitFor_callback w ev listenerId t p v =
     (let w1 = clearTimeout w t;
          w2 = snd (off w1 ev listenerId)
      in settle_promise w2 p (Resolved v))"

definition call_callback :: "api \<Rightarrow> env \<Rightarrow> rail \<Rightarrow> string \<Rightarrow> listener \<Rightarrow> jsval
    \<Rightarrow> (outcome \<times> rail) option" where
  "call_callback rec env w ev l v =
     (case callback l of
        Fn f \<Rightarrow> run_script rec w (env f w v)
      | WaitForCb t p \<Rightarrow> Some (Return (Plain VUndefined), waitFor_callback w ev (idL l) t p v)
      | NotCallable \<Rightarrow> Some (Throw (TypeError ''callback is not a function''), w))"

subsection \<open>Synchronous emission\<close>

text \<open>
  The \<open>catch\<close> block of \<open>emit\<close> and of \<open>emitAsync\<close>: the object \<open>errorData\<close> is created,
  the clone flag is saved and set, \<open>rail.error\<close> is emitted and the flag is put back.
\<close>

definition errorData :: "string \<Rightarrow> string \<Rightarrow> error \<Rightarrow> int \<Rightarrow> jsobj" where
  "errorData mn ev e ts =
     OPlain [(''module'', VStr mn), (''event'', VStr ev),
             (''error'', VStr (message e)), (''timestamp'', VNum ts)]"

definition report_error :: "api \<Rightarrow> rail \<Rightarrow> string \<Rightarrow> string \<Rightarrow> error \<Rightarrow> int \<Rightarrow> rail option" where
  "report_error rec w mn ev e ts =
     (let w1 = w\<lparr>heap := heap w @ [errorData mn ev e ts]\<rparr>;
          originalClone = clone w1;
          w2 = w1\<lparr>clone := True\<rparr>
      in case api_emit rec w2 ''rail.error'' (VRef (length (heap w))) of
           None \<Rightarrow> None
         | Some (n, w3) \<Rightarrow> Some (w3\<lparr>clone := originalClone\<rparr>))"

text \<open>
  \<open>const eventData = this.clone ? this._deepClone(data) : data\<close>, inside the \<open>try\<close>.
\<close>

definition prepare_payload :: "rail \<Rightarrow> jsval \<Rightarrow> error + heap \<times> jsval" where
  "prepare_payload w d = (if clone w then this_deepClone (heap w) d else Inr (heap w, d))"

text \<open>
  The function passed to \<open>listeners.forEach\<close>, for one listener: the state threaded
  through is \<open>handledCount\<close> and the bus. \<open>uid\<close> numbers the emission in the record of
  dispatches.
\<close>

definition dispatch_listener :: "api \<Rightarrow> env \<Rightarrow> string \<Rightarrow> jsval \<Rightarrow> int \<Rightarrow> nat \<Rightarrow> listener
    \<Rightarrow> nat \<times> rail \<Rightarrow> (nat \<times> rail) option" where
  "dispatch_listener rec env ev d ts uid l s =
     (let handledCount = fst s; w = snd s in
      case prepare_payload w d of
        Inl e \<Rightarrow>
          map_option (Pair handledCount)
            (report_error rec
               (w\<lparr>dispatched := dispatched w @
                    [\<lparr>d_emission = uid, d_event = ev, d_listener = l, d_payload = None\<rparr>]\<rparr>)
               (module l) ev e ts)
      | Inr (h', eventData) \<Rightarrow>
          (case call_callback rec env
                  (w\<lparr>heap := h', dispatched := dispatched w @
                      [\<lparr>d_emission = uid, d_event = ev, d_listener = l,
                        d_payload = Some eventData\<rparr>]\<rparr>)
                  ev l eventData of
             None \<Rightarrow> None
           | Some (Throw e, w') \<Rightarrow>
               map_option (Pair handledCount) (report_error rec w' (module l) ev e ts)
           | Some (Return r, w') \<Rightarrow> Some (handledCount + 1, w')))"

text \<open>
  \<open>Array.prototype.forEach\<close> on the array at address \<open>a\<close>: the length is read once,
  before the first call; each index below it is then read from the array as it is at
  that moment, and skipped when the array no longer has it. \<open>Array.prototype.map\<close>
  visits the elements in the same way.
\<close>

primrec fold_option :: "('a \<Rightarrow> 's \<Rightarrow> 's option) \<Rightarrow> 'a list \<Rightarrow> 's \<Rightarrow> 's option" where
  "fold_option f [] s = Some s"
| "fold_option f (x # xs) s =
     (case f x s of None \<Rightarrow> None | Some s' \<Rightarrow> fold_option f xs s')"

definition forEach :: "addr \<Rightarrow> (listener \<Rightarrow> 'c \<times> rail \<Rightarrow> ('c \<times> rail) option)
    \<Rightarrow> 'c \<times> rail \<Rightarrow> ('c \<times> rail) option" where
  "forEach a f s =
     fold_option
       (\<lambda>k s'. if k < length (arrays (snd s') ! a) then f (arrays (snd s') ! a ! k) s'
               else Some s')
       [0..<length (arrays (snd s) ! a)] s"

text \<open>
  \<open>emit(event, data = {})\<close>: the default object is created when the argument is
  \<open>undefined\<close>. \<open>this.listeners.get(event) || []\<close> is the array of the event itself, not
  a copy of it.
\<close>

definition default_data :: "rail \<Rightarrow> jsval \<Rightarrow> jsval \<times> rail" where
  "default_data w d =
     (if d = VUndefined then (VRef (length (heap w)), w\<lparr>heap := heap w @ [OPlain []]\<rparr>)
      else (d, w))"

definition emit :: "api \<Rightarrow> env \<Rightarrow> rail \<Rightarrow> string \<Rightarrow> jsval \<Rightarrow> (nat \<times> rail) option" where
  "emit rec env w0 ev d0 =
     (let d = fst (default_data w0 d0);
          w1 = snd (default_data w0 d0);
          ts = now w1;
          uid = emissions w1;
          w2 = w1\<lparr>eventHistory := eventHistory w1 @ [\<lparr>event = ev, data = d, timestamp = ts\<rparr>],
                 emissions := uid + 1\<rparr>
      in case map_of (listeners w2) ev of
           None \<Rightarrow> Some (0, w2)
         | Some a \<Rightarrow> forEach a (dispatch_listener rec env ev d ts uid) (0, w2))"

subsection \<open>Module lifecycle\<close>

text \<open>\<open>'${s}'\<close> inside a template literal.\<close>

definition quoted :: "string \<Rightarrow> string" where
  "quoted s = [CHR 0x27] @ s @ [CHR 0x27]"

definition emit_module_event :: "api \<Rightarrow> rail \<Rightarrow> string \<Rightarrow> string \<Rightarrow> rail option" where
  "emit_module_event rec w ev moduleName =
     map_option snd
       (api_emit rec (w\<lparr>heap := heap w @ [OPlain [(''moduleName'', VStr moduleName)]]\<rparr>)
          ev (VRef (length (heap w))))"

definition attach :: "api \<Rightarrow> env \<Rightarrow> rail \<Rightarrow> attach_arg \<Rightarrow> ((error + unit) \<times> rail) option" where
  "attach rec env w m =
     (case m of
        NotAnObject \<Rightarrow> Some (Inl (Error ''Module must be an object''), w)
      | ModuleObj nm con dis \<Rightarrow>
          (case nm of
             VStr n \<Rightarrow>
               if n = [] then Some (Inl (Error ''Module must have a name property''), w)
               else if map_of (modules w) n \<noteq> None
               then Some (Inl (Error (''Module '' @ quoted n @ '' is already attached'')), w)
               else
                 let w1 = w\<lparr>modules := AList.update n
                              \<lparr>mod_name = n, connect = con, disconnect = dis\<rparr> (modules w)\<rparr>
                 in (case con of
                       None \<Rightarrow>
                         map_option (Pair (Inr ())) (emit_module_event rec w1 ''rail.module.attached'' n)
                     | Some f \<Rightarrow>
                         (case run_script rec w1 (env f w1 VUndefined) of
                            None \<Rightarrow> None
                          | Some (Throw e, w2) \<Rightarrow>
                              Some (Inl (Error (''Failed to connect module '' @ quoted n @ '': '' @ message e)),
                                    w2\<lparr>modules := AList.delete n (modules w2)\<rparr>)
                          | Some (Return r, w2) \<Rightarrow>
                              map_option (Pair (Inr ()))
                                (emit_module_event rec w2 ''rail.module.attached'' n)))
           | _ \<Rightarrow> Some (Inl (Error ''Module must have a name property''), w)))"

definition detach :: "api \<Rightarrow> env \<Rightarrow> rail \<Rightarrow> string \<Rightarrow> (bool \<times> rail) option" where
  "detach rec env w moduleName =
     (case map_of (modules w) moduleName of
        None \<Rightarrow> Some (False, w)
      | Some m \<Rightarrow>
          let w1 = removeListeners moduleName (listeners w) w
          in (case (case disconnect m of
                      None \<Rightarrow> Some w1
                    | Some f \<Rightarrow> map_option snd (run_script rec w1 (env f w1 VUndefined))) of
                None \<Rightarrow> None
              | Some w2 \<Rightarrow>
                  map_option (Pair True)
                    (emit_module_event rec (w2\<lparr>modules := AList.delete moduleName (modules w2)\<rparr>)
                       ''rail.module.detached'' moduleName)))"

subsection \<open>Asynchronous emission\<close>

text \<open>
  Each listener of \<open>emitAsync\<close> gets an activation of the \<open>async\<close> arrow function. It
  runs at once up to its \<open>await\<close>: a throw before that is caught there and then.
  Otherwise the activation waits for the value awaited (a plain value counts as
  fulfilled) and is resumed later, when it either returns its entry or runs the \<open>catch\<close>
  block. \<open>Promise.all\<close> gives the entries in the order of the activations once all have
  returned.
\<close>

record result_entry =
  r_module :: string
  r_result :: jsval
  r_error :: "string option"

datatype activation = Settled result_entry | Awaiting listener settle

fun is_settled :: "activation \<Rightarrow> bool" where
  "is_settled (Settled r) = True"
| "is_settled (Awaiting l st) = False"

fun entry_of :: "activation \<Rightarrow> result_entry" where
  "entry_of (Settled r) = r"
| "entry_of (Awaiting l st) = \<lparr>r_module = module l, r_result = VUndefined, r_error = None\<rparr>"

definition failed_entry :: "listener \<Rightarrow> error \<Rightarrow> activation" where
  "failed_entry l e = Settled \<lparr>r_module = module l, r_result = VNull, r_error = Some (message e)\<rparr>"

definition start_activation :: "api \<Rightarrow> env \<Rightarrow> string \<Rightarrow> jsval \<Rightarrow> int \<Rightarrow> nat \<Rightarrow> listener
    \<Rightarrow> activation list \<times> rail \<Rightarrow> (activation list \<times> rail) option" where
  "start_activation rec env ev d ts uid l s =
     (let acts = fst s; w = snd s in
      case prepare_payload w d of
        Inl e \<Rightarrow>
          map_option (Pair (acts @ [failed_entry l e]))
            (report_error rec
               (w\<lparr>dispatched := dispatched w @
                    [\<lparr>d_emission = uid, d_event = ev, d_listener = l, d_payload = None\<rparr>]\<rparr>)
               (module l) ev e ts)
      | Inr (h', eventData) \<Rightarrow>
          (case call_callback rec env
                  (w\<lparr>heap := h', dispatched := dispatched w @
                      [\<lparr>d_emission = uid, d_event = ev, d_listener = l,
                        d_payload = Some eventData\<rparr>]\<rparr>)
                  ev l eventData of
             None \<Rightarrow> None
           | Some (Throw e, w') \<Rightarrow>
               map_option (Pair (acts @ [failed_entry l e])) (report_error rec w' (module l) ev e ts)
           | Some (Return (Plain v), w') \<Rightarrow> Some (acts @ [Awaiting l (Fulfils v)], w')
           | Some (Return (Promise st), w') \<Rightarrow> Some (acts @ [Awaiting l st], w')))"

definition resume_activation :: "api \<Rightarrow> string \<Rightarrow> int \<Rightarrow> nat
    \<Rightarrow> activation list \<times> rail \<Rightarrow> (activation list \<times> rail) option" where
  "resume_activation rec ev ts k s =
     (let acts = fst s; w = snd s in
      if k < length acts then
        (case acts ! k of
           Awaiting l (Fulfils v) \<Rightarrow>
             Some (acts[k := Settled \<lparr>r_module = module l, r_result = v, r_error = None\<rparr>], w)
         | Awaiting l (Rejects e) \<Rightarrow>
             map_option (Pair (acts[k := failed_entry l e])) (report_error rec w (module l) ev e ts)
         | Awaiting l Never \<Rightarrow> Some (acts, w)
         | Settled r \<Rightarrow> Some (acts, w))
      else Some (acts, w))"

text \<open>
  \<open>emitAsync(event, data = {})\<close>, with the order in which the waiting activations are
  resumed as \<open>schedule\<close> (indices into the list of activations). The first component of
  the result is the value the returned promise is fulfilled with, \<open>None\<close> while some
  activation has not returned.
\<close>

definition emitAsync :: "api \<Rightarrow> env \<Rightarrow> rail \<Rightarrow> string \<Rightarrow> jsval \<Rightarrow> nat list
    \<Rightarrow> (result_entry list option \<times> rail) option" where
  "emitAsync rec env w0 ev d0 schedule =
     (let d = fst (default_data w0 d0);
          w1 = snd (default_data w0 d0);
          ts = now w1;
          uid = emissions w1;
          w2 = w1\<lparr>eventHistory := eventHistory w1 @ [\<lparr>event = ev, data = d, timestamp = ts\<rparr>],
                 emissions := uid + 1\<rparr>
      in case (case map_of (listeners w2) ev of
                 None \<Rightarrow> Some ([], w2)
               | Some a \<Rightarrow> forEach a (start_activation rec env ev d ts uid) ([], w2)) of
           None \<Rightarrow> None
         | Some s1 \<Rightarrow>
             (case fold_option (resume_activation rec ev ts) schedule s1 of
                None \<Rightarrow> None
              | Some (acts, w3) \<Rightarrow>
                  Some (if list_all is_settled acts then Some (map entry_of acts) else None, w3)))"



subsection \<open>Waiting for an event\<close>

text \<open>
  \<open>waitFor(event, timeout = 5000)\<close> creates a promise, starts a timer and registers a
  listener under the module name \<open>wait-for\<close>; the result is the promise. \<open>fire_timer\<close>
  is the function given to \<open>setTimeout\<close>, run when the delay has passed:
  \<open>reject(new Error(`Timeout waiting for event '${event}'`))\<close>.
\<close>

definition waitFor :: "rail \<Rightarrow> string \<Rightarrow> int option \<Rightarrow> nat \<times> rail" where
  "waitFor w ev timeout =
     (let p = length (promises w);
          t = length (timers w);
          w1 = w\<lparr>promises := promises w @ [Pending],
                 timers := timers w @
                   [\<lparr>t_active = True, t_delay = (case timeout of None \<Rightarrow> 5000 | Some ms \<Rightarrow> ms),
                     t_promise = p, t_event = ev\<rparr>]\<rparr>
      in case on w1 ev (WaitForCb t p) (Some ''wait-for'') of
           Inl e \<Rightarrow> (p, settle_promise w1 p (Rejected e))
         | Inr (i, w2) \<Rightarrow> (p, w2))"

definition fire_timer :: "rail \<Rightarrow> nat \<Rightarrow> rail" where
  "fire_timer w t =
     (if t < length (timers w) \<and> t_active (timers w ! t) then
        settle_promise (w\<lparr>timers := (timers w)[t := (timers w ! t)\<lparr>t_active := False\<rparr>]\<rparr>)
          (t_promise (timers w ! t))
          (Rejected (Error (''Timeout waiting for event '' @ quoted (t_event (timers w ! t)))))
      else w)"

text \<open>
  The operations with calls nested at most \<open>n\<close> deep: at depth 0 no call returns.
\<close>

primrec rail_api :: "env \<Rightarrow> nat \<Rightarrow> api" where
  "rail_api env 0 =
     \<lparr>api_emit = (\<lambda>w ev d. None), api_attach = (\<lambda>w m. None), api_detach = (\<lambda>w n. None)\<rparr>"
| "rail_api env (Suc n) =
     \<lparr>api_emit = emit (rail_api env n) env,
      api_attach = attach (rail_api env n) env,
      api_detach = detach (rail_api env n) env\<rparr>"

subsection \<open>What every operation preserves\<close>

text \<open>
  \<open>grows u w w'\<close>: from \<open>w\<close> to \<open>w'\<close> the record of dispatches, the heap and each
  listener array have only been appended to, the new dispatches belong to emissions
  numbered \<open>u\<close> or later, and no emission number is given twice. \<open>api_grows\<close> says
  that the nested operations are of that kind.
\<close>

definition grows :: "nat \<Rightarrow> rail \<Rightarrow> rail \<Rightarrow> bool" where
  "grows u w w' \<longleftrightarrow>
     (\<exists>ds. dispatched w' = dispatched w @ ds \<and> list_all (\<lambda>e. u \<le> d_emission e) ds) \<and>
     emissions w \<le> emissions w' \<and>
     (\<exists>hs. heap w' = heap w @ hs) \<and>
     length (arrays w) \<le> length (arrays w') \<and>
     (\<forall>a<length (arrays w). \<exists>ls. arrays w' ! a = arrays w ! a @ ls)"

definition api_grows :: "api \<Rightarrow> bool" where
  "api_grows rec \<longleftrightarrow>
     (\<forall>w ev d r w'. api_emit rec w ev d = Some (r, w') \<longrightarrow> grows (emissions w) w w') \<and>
     (\<forall>w m r w'. api_attach rec w m = Some (r, w') \<longrightarrow> grows (emissions w) w w') \<and>
     (\<forall>w n r w'. api_detach rec w n = Some (r, w') \<longrightarrow> grows (emissions w) w w')"


subsection \<open>Return values of callbacks\<close>



section \<open>Example buses\<close>

text \<open>The state after \<open>new Rail()\<close>.\<close>

definition bus0 :: rail where
  "bus0 = \<lparr>name = ''rail-app'', debug = False, clone = True, listeners = [], modules = [],
      eventHistory = [], listenerIdCounter = 0, arrays = [], heap = [], now = 0,
      timers = [], promises = [], emissions = 0, dispatched = []\<rparr>"

text \<open>Three emissions recorded; limits 0, 2 and 5.\<close>

definition history3 :: "history_entry list" where
  "history3 =
     [\<lparr>event = ''a'', data = VNum 1, timestamp = 10\<rparr>,
      \<lparr>event = ''b'', data = VNum 2, timestamp = 11\<rparr>,
      \<lparr>event = ''c'', data = VNum 3, timestamp = 12\<rparr>]"





text \<open>
  Callbacks that do nothing; a bus with a module named \<open>anonymous\<close> attached and one
  listener registered without a module name.
\<close>

definition quiet :: env where
  "quiet f w v = ([], Return (Plain VUndefined))"


text \<open>
  Every callback throws; a bus with one listener of \<open>x\<close> and one of \<open>rail.error\<close>.
\<close>

definition always_throws :: env where
  "always_throws f w v = ([], Throw (Error ''boom''))"

definition bus_throw :: rail where
  "bus_throw = bus0\<lparr>listeners := [(''x'', 0), (''rail.error'', 1)], listenerIdCounter := 2,
      arrays := [[\<lparr>callback = Fn 0, module = ''worker'', idL = 1\<rparr>],
                 [\<lparr>callback = Fn 1, module = ''error-handler'', idL = 2\<rparr>]]\<rparr>"



text \<open>
  A module whose \<open>connect\<close> registers a listener of \<open>x\<close> under the module name and then
  throws.
\<close>

definition failing_connect :: env where
  "failing_connect f w v = ([On ''x'' (Fn 1) (Some ''bad'')], Throw (Error ''boom''))"

text \<open>
  The payload \<open>{hasOwnProperty: 1}\<close> at address 0, cloning on, one listener of \<open>x\<close>.
\<close>

definition bus_shadowed :: rail where
  "bus_shadowed = bus0\<lparr>listeners := [(''x'', 0)], listenerIdCounter := 1,
      arrays := [[\<lparr>callback = Fn 0, module = ''reader'', idL = 1\<rparr>]],
      heap := [OPlain [(''hasOwnProperty'', VNum 1)]]\<rparr>"

text \<open>
  A payload with a date, an array holding an object, a regular expression and
  primitives, at address 4, and the tree it stands for.
\<close>

definition payload_heap :: heap where
  "payload_heap =
     [ODate 1672531200000,
      OPlain [(''nested'', VStr ''value'')],
      OArray [VNum 1, VNum 2, VRef 1],
      ORegExp ''ab+c'' ''gi'',
      OPlain [(''date'', VRef 0), (''array'', VRef 2), (''null'', VNull),
              (''undefined'', VUndefined), (''boolean'', VBool True), (''number'', VNum 42),
              (''pattern'', VRef 3)]]"

definition payload_tree :: "addr jtree" where
  "payload_tree =
     TObject 4
       [(''date'', TDate 0 1672531200000),
        (''array'', TArray 2 [TNum 1, TNum 2, TObject 1 [(''nested'', TStr ''value'')]]),
        (''null'', TNull), (''undefined'', TUndefined), (''boolean'', TBool True),
        (''number'', TNum 42), (''pattern'', TRegExp 3 ''ab+c'' ''gi'')]"



section \<open>Properties\<close>

subsection \<open>Growth of the state\<close>


lemma grows_refl [simp]: "grows u w w"
  by (simp add: grows_def)








lemma grows_new_array:
  "grows u w (w\<lparr>listeners := m, arrays := arrays w @ [ls]\<rparr>)"
  by (auto simp: grows_def nth_append)










lemma api_grows_attach:
  "api_grows rec \<Longrightarrow> api_attach rec w m = Some (r, w') \<Longrightarrow> grows (emissions w) w w'"
  by (simp add: api_grows_def)

lemma api_grows_detach:
  "api_grows rec \<Longrightarrow> api_detach rec w n = Some (r, w') \<Longrightarrow> grows (emissions w) w w'"
  by (simp add: api_grows_def)





lemma grows_alloc: "grows u w (w\<lparr>heap := heap w @ hs\<rparr>)"
  by (simp add: grows_def)















subsection \<open>Dispatch over the listeners present when the emission starts\<close>








subsection \<open>The error emission\<close>









subsection \<open>Detaching a module\<close>











subsection \<open>Deep clone\<close>

text \<open>
  Claim C1 fails on the code for a plain object with an own property named
  \<open>hasOwnProperty\<close>: \<open>obj.hasOwnProperty(key)\<close> then calls the property value, which
  throws a \<open>TypeError\<close>; inside \<open>emit\<close> the throw is caught, the callback is not called
  and the emission returns 0. For an own property named \<open>__proto__\<close> the clone lacks
  the property.
\<close>

theorem deepClone_shadowed_hasOwnProperty:
  "this_deepClone [OPlain [(''hasOwnProperty'', VNum 1)]] (VRef 0)
     = Inl (TypeError ''obj.hasOwnProperty is not a function'') \<and>
   this_deepClone [OPlain [(''__proto__'', VNum 5)]] (VRef 0)
     = Inr ([OPlain [(''__proto__'', VNum 5)], OPlain []], VRef 1) \<and>
   fst (the (api_emit (rail_api quiet (Suc (Suc 0))) bus_shadowed ''x'' (VRef 0))) = 0 \<and>
   map d_payload (dispatched (snd (the
      (api_emit (rail_api quiet (Suc (Suc 0))) bus_shadowed ''x'' (VRef 0))))) = [None]"
  by (simp add: this_deepClone_def hasOwnProperty_def assign_prop_def bus_shadowed_def bus0_def
        quiet_def emit_def default_data_def forEach_def dispatch_listener_def prepare_payload_def
        report_error_def errorData_def Let_def)

subsection \<open>Deep clone of values with safe keys\<close>

lemma reify_frame:
  "reify n h v = Some t \<Longrightarrow> length h \<le> length h' \<Longrightarrow> \<forall>a<length h. h' ! a = h ! a
     \<Longrightarrow> reify n h' v = Some t"
  "reify_items n h vs = Some ts \<Longrightarrow> length h \<le> length h' \<Longrightarrow> \<forall>a<length h. h' ! a = h ! a
     \<Longrightarrow> reify_items n h' vs = Some ts"
  "reify_props n h ps = Some tps \<Longrightarrow> length h \<le> length h' \<Longrightarrow> \<forall>a<length h. h' ! a = h ! a
     \<Longrightarrow> reify_props n h' ps = Some tps"
proof (induction n h v and n h vs and n h ps arbitrary: t and ts and tps
       rule: reify_reify_items_reify_props.induct)
  case (7 n h a)
  then show ?case
    by (auto split: if_splits jsobj.splits)
next
  case (9 n h v vs)
  then show ?case
    by (auto split: option.splits)
next
  case (11 n h k v ps)
  then show ?case
    by (auto split: option.splits)
qed auto

lemma reify_extend:
  "reify n h v = Some t \<Longrightarrow> reify n (h @ hs) v = Some t"
  "reify_items n h vs = Some ts \<Longrightarrow> reify_items n (h @ hs) vs = Some ts"
  "reify_props n h ps = Some tps \<Longrightarrow> reify_props n (h @ hs) ps = Some tps"
  by (erule reify_frame; simp add: nth_append)+

lemma update_fresh_key:
  "k \<notin> set (map fst al) \<Longrightarrow> AList.update k v al = al @ [(k, v)]"
  by (induction al) auto

lemma reify_props_keys:
  "reify_props n h ps = Some tps \<Longrightarrow> map fst tps = map fst ps"
  by (induction ps arbitrary: tps) (auto split: option.splits)

lemma cloneItems_ok:
  assumes ok: "clone_ok n"
  shows "reify_items n h vs = Some ts \<Longrightarrow> list_all safe_keys ts \<Longrightarrow>
     \<exists>hs vs' ts'. cloneItems n h vs = Some (Inr (h @ hs, vs')) \<and>
        reify_items n (h @ hs) vs' = Some ts' \<and> map shape ts' = map shape ts \<and>
        (\<forall>t'\<in>set ts'. set_jtree t' \<subseteq> {length h..<length h + length hs})"
proof (induction vs arbitrary: h ts)
  case Nil
  then show ?case by (auto intro: exI [of _ "[]"])
next
  case (Cons v vs)
  from Cons.prems(1) obtain t1 ts1 where
    r1: "reify n h v = Some t1" and rs: "reify_items n h vs = Some ts1" and ts: "ts = t1 # ts1"
    by (auto split: option.splits)
  from Cons.prems(2) ts have s1: "safe_keys t1" and ss: "list_all safe_keys ts1" by simp_all
  from ok r1 s1 obtain hs1 v1 t1' where
    c1: "deepClone n h v = Some (Inr (h @ hs1, v1))"
    and r1': "reify n (h @ hs1) v1 = Some t1'" and sh1: "shape t1' = shape t1"
    and f1: "set_jtree t1' \<subseteq> {length h..<length h + length hs1}"
    unfolding clone_ok_def by blast
  from rs have "reify_items n (h @ hs1) vs = Some ts1" by (rule reify_extend)
  from Cons.IH [OF this ss] obtain hs2 vs' ts' where
    c2: "cloneItems n (h @ hs1) vs = Some (Inr ((h @ hs1) @ hs2, vs'))"
    and r2: "reify_items n ((h @ hs1) @ hs2) vs' = Some ts'"
    and sh2: "map shape ts' = map shape ts1"
    and f2: "\<forall>t'\<in>set ts'. set_jtree t' \<subseteq> {length (h @ hs1)..<length (h @ hs1) + length hs2}"
    by blast
  from r1' have r1'': "reify n ((h @ hs1) @ hs2) v1 = Some t1'" by (rule reify_extend)
  have "cloneItems n h (v # vs) = Some (Inr (h @ (hs1 @ hs2), v1 # vs'))"
    using c1 c2 by simp
  moreover have "reify_items n (h @ (hs1 @ hs2)) (v1 # vs') = Some (t1' # ts')"
    using r1'' r2 by simp
  moreover have "map shape (t1' # ts') = map shape ts"
    using sh1 sh2 ts by simp
  moreover have "\<forall>t'\<in>set (t1' # ts'). set_jtree t' \<subseteq> {length h..<length h + length (hs1 @ hs2)}"
    using f1 f2 by fastforce
  ultimately show ?case by blast
qed

lemma cloneProps_ok:
  assumes ok: "clone_ok n" and own: "map_of obj ''hasOwnProperty'' = None"
  shows "reify_props n h ps = Some tps \<Longrightarrow> list_all (\<lambda>p. safe_keys (snd p)) tps \<Longrightarrow>
     \<forall>k\<in>set (map fst ps). map_of obj k \<noteq> None \<and> k \<noteq> ''__proto__'' \<Longrightarrow>
     distinct (map fst ps) \<Longrightarrow> set (map fst ps) \<inter> set (map fst cloned) = {} \<Longrightarrow>
     \<exists>hs new tps'. cloneProps n h obj cloned ps = Some (Inr (h @ hs, cloned @ new)) \<and>
        reify_props n (h @ hs) new = Some tps' \<and>
        map (map_prod id shape) tps' = map (map_prod id shape) tps \<and>
        (\<forall>p\<in>set tps'. set_jtree (snd p) \<subseteq> {length h..<length h + length hs})"
proof (induction ps arbitrary: h tps cloned)
  case Nil
  then show ?case by (auto intro: exI [of _ "[]"])
next
  case (Cons p ps)
  obtain key v where p: "p = (key, v)" by (cases p)
  from Cons.prems(1) p obtain t1 tps1 where
    r1: "reify n h v = Some t1" and rs: "reify_props n h ps = Some tps1"
    and tps: "tps = (key, t1) # tps1"
    by (auto split: option.splits)
  from Cons.prems(2) tps have s1: "safe_keys t1" and ss: "list_all (\<lambda>p. safe_keys (snd p)) tps1"
    by simp_all
  from Cons.prems(3) p have key: "map_of obj key \<noteq> None" "key \<noteq> ''__proto__''" by simp_all
  with own have has: "hasOwnProperty obj key = Inr True"
    by (simp add: hasOwnProperty_def)
  from ok r1 s1 obtain hs1 v1 t1' where
    c1: "deepClone n h v = Some (Inr (h @ hs1, v1))"
    and r1': "reify n (h @ hs1) v1 = Some t1'" and sh1: "shape t1' = shape t1"
    and f1: "set_jtree t1' \<subseteq> {length h..<length h + length hs1}"
    unfolding clone_ok_def by blast
  from Cons.prems(5) p have "key \<notin> set (map fst cloned)" by auto
  with key have asg: "assign_prop cloned key v1 = cloned @ [(key, v1)]"
    by (simp add: assign_prop_def update_fresh_key)
  from rs have rs': "reify_props n (h @ hs1) ps = Some tps1" by (rule reify_extend)
  have k3: "\<forall>k\<in>set (map fst ps). map_of obj k \<noteq> None \<and> k \<noteq> ''__proto__''"
    using Cons.prems(3) by simp
  have d: "distinct (map fst ps)" using Cons.prems(4) by simp
  have dj: "set (map fst ps) \<inter> set (map fst (cloned @ [(key, v1)])) = {}"
    using Cons.prems(4,5) p by auto
  from Cons.IH [OF rs' ss k3 d dj] obtain hs2 new tps' where
    c2: "cloneProps n (h @ hs1) obj (cloned @ [(key, v1)]) ps
           = Some (Inr ((h @ hs1) @ hs2, (cloned @ [(key, v1)]) @ new))"
    and r2: "reify_props n ((h @ hs1) @ hs2) new = Some tps'"
    and sh2: "map (map_prod id shape) tps' = map (map_prod id shape) tps1"
    and f2: "\<forall>p\<in>set tps'. set_jtree (snd p) \<subseteq> {length (h @ hs1)..<length (h @ hs1) + length hs2}"
    by blast
  from r1' have r1'': "reify n ((h @ hs1) @ hs2) v1 = Some t1'" by (rule reify_extend)
  have "cloneProps n h obj cloned (p # ps)
          = Some (Inr (h @ (hs1 @ hs2), cloned @ ((key, v1) # new)))"
    using p has c1 asg c2 by simp
  moreover have "reify_props n (h @ (hs1 @ hs2)) ((key, v1) # new) = Some ((key, t1') # tps')"
    using r1'' r2 by simp
  moreover have "map (map_prod id shape) ((key, t1') # tps') = map (map_prod id shape) tps"
    using sh1 sh2 tps by simp
  moreover have "\<forall>p\<in>set ((key, t1') # tps').
      set_jtree (snd p) \<subseteq> {length h..<length h + length (hs1 @ hs2)}"
    using f1 f2 by fastforce
  ultimately show ?case by blast
qed

lemma shape_eq: "shape = map_jtree (\<lambda>a. ())"
  by (rule ext) (simp add: shape_def)

lemma clone_ok_0: "clone_ok 0"
  unfolding clone_ok_def
proof (intro allI impI)
  fix h v t
  assume "reify 0 h v = Some t"
  then show "\<exists>hs v' t'. deepClone 0 h v = Some (Inr (h @ hs, v')) \<and>
           reify 0 (h @ hs) v' = Some t' \<and> shape t' = shape t \<and>
           set_jtree t' \<subseteq> {length h..<length h + length hs}"
    by (cases v) (auto intro!: exI [of _ "[]"])
qed

lemma clone_ok_Suc:
  assumes ok: "clone_ok n"
  shows "clone_ok (Suc n)"
  unfolding clone_ok_def
proof (intro allI impI)
  fix h v t
  assume r: "reify (Suc n) h v = Some t" and s: "safe_keys t"
  let ?goal = "\<exists>hs v' t'. deepClone (Suc n) h v = Some (Inr (h @ hs, v')) \<and>
           reify (Suc n) (h @ hs) v' = Some t' \<and> shape t' = shape t \<and>
           set_jtree t' \<subseteq> {length h..<length h + length hs}"
  show ?goal
  proof (cases v)
    case (VRef a)
    with r have a: "a < length h" by (auto split: if_splits)
    show ?thesis
    proof (cases "h ! a")
      case (ODate d)
      with VRef a r have t: "t = TDate a d" by simp
      have "deepClone (Suc n) h v = Some (Inr (h @ [ODate d], VRef (length h)))"
        using VRef a ODate by simp
      moreover have "reify (Suc n) (h @ [ODate d]) (VRef (length h)) = Some (TDate (length h) d)"
        by simp
      moreover have "shape (TDate (length h) d) = shape t"
        by (simp add: t shape_def)
      ultimately show ?thesis by fastforce
    next
      case (ORegExp src fl)
      with VRef a r have t: "t = TRegExp a src fl" by simp
      have "deepClone (Suc n) h v = Some (Inr (h @ [ORegExp src fl], VRef (length h)))"
        using VRef a ORegExp by simp
      moreover have "reify (Suc n) (h @ [ORegExp src fl]) (VRef (length h))
          = Some (TRegExp (length h) src fl)"
        by simp
      moreover have "shape (TRegExp (length h) src fl) = shape t"
        by (simp add: t shape_def)
      ultimately show ?thesis by fastforce
    next
      case (OArray items)
      with VRef a r obtain ts where ri: "reify_items n h items = Some ts" and t: "t = TArray a ts"
        by auto
      from s t have "list_all safe_keys ts" by simp
      from cloneItems_ok [OF ok ri this] obtain hs vs' ts' where
        c: "cloneItems n h items = Some (Inr (h @ hs, vs'))"
        and r': "reify_items n (h @ hs) vs' = Some ts'"
        and sh: "map shape ts' = map shape ts"
        and f: "\<forall>t'\<in>set ts'. set_jtree t' \<subseteq> {length h..<length h + length hs}"
        by blast
      let ?c = "length h + length hs"
      have "deepClone (Suc n) h v = Some (Inr (h @ (hs @ [OArray vs']), VRef ?c))"
        using VRef a OArray c by simp
      moreover from r' have "reify_items n ((h @ hs) @ [OArray vs']) vs' = Some ts'"
        by (rule reify_extend)
      then have "reify (Suc n) (h @ (hs @ [OArray vs'])) (VRef ?c) = Some (TArray ?c ts')"
        by (simp add: nth_append)
      moreover have "shape (TArray ?c ts') = shape t"
        using sh by (simp add: t shape_eq)
      moreover have "set_jtree (TArray ?c ts') \<subseteq> {length h..<length h + length (hs @ [OArray vs'])}"
        using f by fastforce
      ultimately show ?thesis by blast
    next
      case (OPlain obj)
      with VRef a r obtain tps where rp: "reify_props n h obj = Some tps" and t: "t = TObject a tps"
        by auto
      from rp have keys: "map fst tps = map fst obj" by (rule reify_props_keys)
      from s t keys have d: "distinct (map fst obj)"
        and own: "''hasOwnProperty'' \<notin> set (map fst obj)"
        and proto: "''__proto__'' \<notin> set (map fst obj)"
        and ss: "list_all (\<lambda>p. safe_keys (snd p)) tps"
        by simp_all
      from own have own': "map_of obj ''hasOwnProperty'' = None"
        by (simp add: map_of_eq_None_iff)
      have k: "\<forall>k\<in>set (map fst obj). map_of obj k \<noteq> None \<and> k \<noteq> ''__proto__''"
        using proto by (force simp: map_of_eq_None_iff)
      have dj: "set (map fst obj) \<inter> set (map fst ([] :: (string \<times> jsval) list)) = {}" by simp
      from cloneProps_ok [OF ok own' rp ss k d dj] obtain hs new tps' where
        c: "cloneProps n h obj [] obj = Some (Inr (h @ hs, [] @ new))"
        and r': "reify_props n (h @ hs) new = Some tps'"
        and sh: "map (map_prod id shape) tps' = map (map_prod id shape) tps"
        and f: "\<forall>p\<in>set tps'. set_jtree (snd p) \<subseteq> {length h..<length h + length hs}"
        by blast
      let ?c = "length h + length hs"
      have "deepClone (Suc n) h v = Some (Inr (h @ (hs @ [OPlain new]), VRef ?c))"
        using VRef a OPlain c by simp
      moreover from r' have "reify_props n ((h @ hs) @ [OPlain new]) new = Some tps'"
        by (rule reify_extend)
      then have "reify (Suc n) (h @ (hs @ [OPlain new])) (VRef ?c) = Some (TObject ?c tps')"
        by (simp add: nth_append)
      moreover have "shape (TObject ?c tps') = shape t"
        using sh by (simp add: t shape_eq)
      moreover have "set_jtree (TObject ?c tps') \<subseteq> {length h..<length h + length (hs @ [OPlain new])}"
        using f by fastforce
      ultimately show ?thesis by blast
    qed
  qed (use r in \<open>auto intro!: exI [of _ "[]"]\<close>)
qed

lemma clone_ok: "clone_ok n"
  by (induction n) (simp_all add: clone_ok_0 clone_ok_Suc)

lemma reify_Suc:
  "reify n h v = Some t \<Longrightarrow> reify (Suc n) h v = Some t"
  "reify_items n h vs = Some ts \<Longrightarrow> reify_items (Suc n) h vs = Some ts"
  "reify_props n h ps = Some tps \<Longrightarrow> reify_props (Suc n) h ps = Some tps"
proof (induction n h v and n h vs and n h ps arbitrary: t and ts and tps
       rule: reify_reify_items_reify_props.induct)
  case (7 n h a)
  then show ?case
    by (auto split: if_splits jsobj.splits)
next
  case (9 n h v vs)
  then show ?case
    by (auto split: option.splits)
next
  case (11 n h k v ps)
  then show ?case
    by (auto split: option.splits)
qed auto

lemma reify_mono: "reify n h v = Some t \<Longrightarrow> n \<le> m \<Longrightarrow> reify m h v = Some t"
  by (induction m) (auto simp: le_Suc_eq dest: reify_Suc(1))

lemma reify_unique: "reify n h v = Some t \<Longrightarrow> reify m h v = Some u \<Longrightarrow> t = u"
  using reify_mono [of n h v t "max n m"] reify_mono [of m h v u "max n m"] by simp

lemma deepClone_Suc:
  "deepClone n h v = Some r \<Longrightarrow> deepClone (Suc n) h v = Some r"
  "cloneItems n h vs = Some rs \<Longrightarrow> cloneItems (Suc n) h vs = Some rs"
  "cloneProps n h obj cloned ps = Some rp \<Longrightarrow> cloneProps (Suc n) h obj cloned ps = Some rp"
proof (induction n h v and n h vs and n h obj cloned ps arbitrary: r and rs and rp
       rule: deepClone_cloneItems_cloneProps.induct)
  case (7 n h a)
  then show ?case
    by (auto split: if_splits jsobj.splits option.splits sum.splits prod.splits)
next
  case (9 n h item items)
  then show ?case
    by (auto split: option.splits sum.splits prod.splits)
next
  case (11 n h obj cloned key v rest)
  then show ?case
    by (auto split: option.splits sum.splits prod.splits bool.splits)
qed auto

lemma deepClone_mono: "deepClone n h v = Some r \<Longrightarrow> n \<le> m \<Longrightarrow> deepClone m h v = Some r"
  by (induction m) (auto simp: le_Suc_eq dest: deepClone_Suc(1))

lemma reify_items_member:
  "reify_items n h vs = Some ts \<Longrightarrow> v \<in> set vs \<Longrightarrow> reify n h v = Some t \<Longrightarrow> t \<in> set ts"
  by (induction vs arbitrary: ts) (auto split: option.splits)

lemma reify_props_member:
  "reify_props n h ps = Some tps \<Longrightarrow> (k, v) \<in> set ps \<Longrightarrow> reify n h v = Some t
     \<Longrightarrow> (k, t) \<in> set tps"
  by (induction ps arbitrary: tps) (auto split: option.splits)

lemma reify_items_fuel:
  assumes "\<And>v t. v \<in> set vs \<Longrightarrow> reify n h v = Some t \<Longrightarrow> reify k h v = Some t"
  shows "reify_items n h vs = Some ts \<Longrightarrow> reify_items k h vs = Some ts"
  using assms by (induction vs arbitrary: ts) (auto split: option.splits)

lemma reify_props_fuel:
  assumes "\<And>key v t. (key, v) \<in> set ps \<Longrightarrow> reify n h v = Some t \<Longrightarrow> reify k h v = Some t"
  shows "reify_props n h ps = Some tps \<Longrightarrow> reify_props k h ps = Some tps"
  using assms
proof (induction ps arbitrary: tps)
  case Nil
  then show ?case by simp
next
  case (Cons p ps)
  obtain key v where p: "p = (key, v)" by (cases p)
  from Cons.prems(1) p obtain t1 tps1 where
    r1: "reify n h v = Some t1" and rs: "reify_props n h ps = Some tps1"
    and tps: "tps = (key, t1) # tps1"
    by (auto split: option.splits)
  from r1 p have "reify k h v = Some t1"
    by (intro Cons.prems(2) [of key]) simp_all
  moreover have "reify_props k h ps = Some tps1"
    using rs by (rule Cons.IH) (auto intro: Cons.prems(2))
  ultimately show ?case
    using p tps by simp
qed

lemma size_child_array: "t \<in> set ts \<Longrightarrow> size t < size (TArray a ts)"
  by (induction ts) auto

lemma size_child_object: "(k, t) \<in> set ps \<Longrightarrow> size t < size (TObject a ps)"
  by (induction ps) auto


lemma reify_bounded:
  "reify n h v = Some t \<Longrightarrow> A \<subseteq> {..<length h} \<Longrightarrow>
   (\<forall>a\<in>A. \<forall>m u. reify m h (VRef a) = Some u \<longrightarrow> size t < size u) \<Longrightarrow>
   reify (Suc (length h) - card A) h v = Some t"
proof (induction n arbitrary: v t A)
  case 0
  then show ?case by (cases v) auto
next
  case (Suc n)
  show ?case
  proof (cases v)
    case (VRef a)
    with Suc.prems(1) have a: "a < length h" by (auto split: if_splits)
    have ra: "reify (Suc n) h (VRef a) = Some t"
      using Suc.prems(1) unfolding VRef .
    have fin: "finite A" using Suc.prems(2) finite_subset by blast
    have notin: "a \<notin> A"
    proof
      assume "a \<in> A"
      with Suc.prems(1,3) VRef have "size t < size t" by blast
      then show False by simp
    qed
    let ?A = "insert a A"
    have sub: "?A \<subseteq> {..<length h}" using a Suc.prems(2) by simp
    then have "card ?A \<le> length h"
      using card_mono [of "{..<length h}" ?A] by simp
    with fin notin have fuel: "Suc (length h) - card A = Suc (Suc (length h) - card ?A)"
      by simp
    have child: "reify (Suc (length h) - card ?A) h v' = Some t'"
      if r': "reify n h v' = Some t'" and small: "size t' < size t" for v' t'
    proof (rule Suc.IH [OF r' sub], intro ballI allI impI)
      fix b m u
      assume b: "b \<in> ?A" and u: "reify m h (VRef b) = Some u"
      show "size t' < size u"
      proof (cases "b = a")
        case True
        with u have "reify m h (VRef a) = Some u" by simp
        from reify_unique [OF this ra] have "u = t" .
        with small show ?thesis by simp
      next
        case False
        with b u Suc.prems(3) have "size t < size u" by blast
        with small show ?thesis by simp
      qed
    qed
    show ?thesis
    proof (cases "h ! a")
      case (ODate d)
      with Suc.prems(1) VRef a show ?thesis
        unfolding fuel by simp
    next
      case (ORegExp src fl)
      with Suc.prems(1) VRef a show ?thesis
        unfolding fuel by simp
    next
      case (OArray items)
      with Suc.prems(1) VRef a obtain ts where
        ri: "reify_items n h items = Some ts" and t: "t = TArray a ts"
        by auto
      have "reify_items (Suc (length h) - card ?A) h items = Some ts"
      proof (rule reify_items_fuel [OF _ ri])
        fix v' t'
        assume "v' \<in> set items" and r': "reify n h v' = Some t'"
        with ri have "t' \<in> set ts" by (auto dest: reify_items_member)
        then have "size t' < size t" unfolding t by (rule size_child_array)
        with r' show "reify (Suc (length h) - card ?A) h v' = Some t'" by (rule child)
      qed
      with VRef a OArray t show ?thesis
        unfolding fuel by simp
    next
      case (OPlain obj)
      with Suc.prems(1) VRef a obtain tps where
        rp: "reify_props n h obj = Some tps" and t: "t = TObject a tps"
        by auto
      have "reify_props (Suc (length h) - card ?A) h obj = Some tps"
      proof (rule reify_props_fuel [OF _ rp])
        fix key v' t'
        assume "(key, v') \<in> set obj" and r': "reify n h v' = Some t'"
        with rp have "(key, t') \<in> set tps" by (auto dest: reify_props_member)
        then have "size t' < size t" unfolding t by (rule size_child_object)
        with r' show "reify (Suc (length h) - card ?A) h v' = Some t'" by (rule child)
      qed
      with VRef a OPlain t show ?thesis
        unfolding fuel by simp
    qed
  qed (use Suc.prems(1) in auto)
qed

lemma reify_heap_depth: "reify n h v = Some t \<Longrightarrow> reify (Suc (length h)) h v = Some t"
  using reify_bounded [of n h v t "{}"] by simp

lemma reify_addrs:
  "reify n h v = Some t \<Longrightarrow> set_jtree t \<subseteq> {..<length h}"
  "reify_items n h vs = Some ts \<Longrightarrow> \<forall>t\<in>set ts. set_jtree t \<subseteq> {..<length h}"
  "reify_props n h ps = Some tps \<Longrightarrow> \<forall>p\<in>set tps. set_jtree (snd p) \<subseteq> {..<length h}"
proof (induction n h v and n h vs and n h ps arbitrary: t and ts and tps
       rule: reify_reify_items_reify_props.induct)
  case (7 n h a)
  then show ?case
    by (fastforce split: if_splits jsobj.splits)
next
  case (9 n h v vs)
  then show ?case
    by (fastforce split: option.splits)
next
  case (11 n h k v ps)
  then show ?case
    by (fastforce split: option.splits)
qed auto

text \<open>
  The law of the clone, for every payload that is a finite tree of plain objects,
  arrays, dates, regular expressions and primitives in which no object has an own
  property named \<open>hasOwnProperty\<close> or \<open>__proto__\<close>: \<open>_deepClone\<close> returns; the clone has
  the shape of the payload; no cell of the clone is a cell of the payload; the payload
  still stands for the same tree after the clone was made and after any cell of the clone
  is overwritten. Primitives, \<open>null\<close> and \<open>undefined\<close> are returned as they are.
\<close>

theorem this_deepClone_law:
  assumes r: "reify n h p = Some t" and s: "safe_keys t"
  shows "\<exists>hs c t'. this_deepClone h p = Inr (h @ hs, c) \<and>
           reify (Suc (length h)) (h @ hs) c = Some t' \<and> shape t' = shape t \<and>
           set_jtree t' \<inter> set_jtree t = {} \<and>
           reify n (h @ hs) p = Some t \<and>
           (\<forall>a\<in>set_jtree t'. \<forall>ob. reify n ((h @ hs)[a := ob]) p = Some t)"
proof -
  from r have "reify (Suc (length h)) h p = Some t" by (rule reify_heap_depth)
  with clone_ok [of "Suc (length h)"] s obtain hs c t' where
    c: "deepClone (Suc (length h)) h p = Some (Inr (h @ hs, c))"
    and r': "reify (Suc (length h)) (h @ hs) c = Some t'" and sh: "shape t' = shape t"
    and f: "set_jtree t' \<subseteq> {length h..<length h + length hs}"
    unfolding clone_ok_def by blast
  from c have 1: "this_deepClone h p = Inr (h @ hs, c)"
    by (simp add: this_deepClone_def)
  from reify_addrs(1) [OF r] f have 2: "set_jtree t' \<inter> set_jtree t = {}"
    by fastforce
  from r have 3: "reify n (h @ hs) p = Some t" by (rule reify_extend)
  have 4: "reify n ((h @ hs)[a := ob]) p = Some t" if "a \<in> set_jtree t'" for a ob
  proof (rule reify_frame(1) [OF r])
    show "length h \<le> length ((h @ hs)[a := ob])" by simp
    from that f have "length h \<le> a" by auto
    then show "\<forall>b<length h. (h @ hs)[a := ob] ! b = h ! b"
      by (simp add: nth_append)
  qed
  from 1 r' sh 2 3 4 show ?thesis by blast
qed

lemma this_deepClone_primitive:
  "this_deepClone h VUndefined = Inr (h, VUndefined)"
  "this_deepClone h VNull = Inr (h, VNull)"
  "this_deepClone h (VBool b) = Inr (h, VBool b)"
  "this_deepClone h (VNum i) = Inr (h, VNum i)"
  "this_deepClone h (VStr str) = Inr (h, VStr str)"
  by (simp_all add: this_deepClone_def)

theorem this_deepClone_law_witness:
  "\<exists>hs c t'. this_deepClone payload_heap (VRef 4) = Inr (payload_heap @ hs, c) \<and>
      reify (Suc (length payload_heap)) (payload_heap @ hs) c = Some t' \<and>
      shape t' = shape payload_tree \<and>
      set_jtree t' \<inter> set_jtree payload_tree = {} \<and>
      reify 3 (payload_heap @ hs) (VRef 4) = Some payload_tree \<and>
      (\<forall>a\<in>set_jtree t'. \<forall>ob. reify 3 ((payload_heap @ hs)[a := ob]) (VRef 4) = Some payload_tree)"
proof -
  have r: "reify 3 payload_heap (VRef 4) = Some payload_tree"
    by (simp add: payload_heap_def payload_tree_def eval_nat_numeral)
  have s: "safe_keys payload_tree"
    by (simp add: payload_tree_def)
  from this_deepClone_law [OF r s] show ?thesis .
qed

subsection \<open>A throwing listener of the error event\<close>

lemma forEach_first_None:
  assumes "arrays w ! a = l # ls" "f l (c, w) = None"
  shows "forEach a f (c, w) = None"
  using assms by (simp add: forEach_def upt_conv_Cons del: upt_Suc)

lemma dispatch_thrower_None:
  assumes cb: "callback l = Fn g" and thr: "\<forall>w v. env g w v = ([], Throw e)"
    and rep: "\<forall>w e'. listeners w = listeners w0 \<longrightarrow> arrays w = arrays w0 \<longrightarrow>
                report_error rec w (module l) ev e' ts = None"
    and w: "listeners w = listeners w0" "arrays w = arrays w0"
  shows "dispatch_listener rec env ev d ts uid l (c, w) = None"
proof (cases "prepare_payload w d")
  case (Inl e')
  with rep w show ?thesis
    by (simp add: dispatch_listener_def)
next
  case (Inr r)
  with rep w cb thr show ?thesis
    by (cases r) (simp add: dispatch_listener_def call_callback_def run_script_def)
qed

lemma throwing_error_listener_diverges:
  assumes reg: "map_of (listeners w0) ''rail.error'' = Some a" "arrays w0 ! a = l # ls"
    and cb: "callback l = Fn g" and thr: "\<forall>w v. env g w v = ([], Throw e)"
  shows "listeners w = listeners w0 \<Longrightarrow> arrays w = arrays w0 \<Longrightarrow>
           api_emit (rail_api env n) w ''rail.error'' d = None"
proof (induction n arbitrary: w d)
  case 0
  show ?case by simp
next
  case (Suc n)
  let ?d = "fst (default_data w d)"
  let ?w1 = "snd (default_data w d)"
  let ?w2 = "?w1\<lparr>eventHistory := eventHistory ?w1 @
                [\<lparr>event = ''rail.error'', data = ?d, timestamp = now ?w1\<rparr>],
              emissions := emissions ?w1 + 1\<rparr>"
  have w2: "listeners ?w2 = listeners w0" "arrays ?w2 = arrays w0"
    using Suc.prems by (simp_all add: default_data_def)
  have rep: "\<forall>w' e'. listeners w' = listeners w0 \<longrightarrow> arrays w' = arrays w0 \<longrightarrow>
      report_error (rail_api env n) w' (module l) ''rail.error'' e' (now ?w1) = None"
    by (simp add: report_error_def Suc.IH)
  have "dispatch_listener (rail_api env n) env ''rail.error'' ?d (now ?w1) (emissions ?w1) l (0, ?w2)
          = None"
    using cb thr rep w2 by (rule dispatch_thrower_None)
  with reg w2 have "forEach a (dispatch_listener (rail_api env n) env ''rail.error'' ?d (now ?w1)
        (emissions ?w1)) (0, ?w2) = None"
    by (intro forEach_first_None) simp_all
  with reg w2 show ?case
    by (simp add: emit_def Let_def)
qed

text \<open>
  Claim C2 fails on the code when a listener of \<open>rail.error\<close> throws: the \<open>catch\<close> block
  emits \<open>rail.error\<close>, whose listener throws, whose \<open>catch\<close> block emits \<open>rail.error\<close>
  again, without end. With one throwing listener of \<open>x\<close> and one of \<open>rail.error\<close>,
  \<open>emit('x', 1)\<close> returns no count, however deep the calls may nest.
\<close>

theorem emit_diverges_if_error_listener_throws:
  "api_emit (rail_api always_throws n) bus_throw ''x'' (VNum 1) = None"
proof (cases n)
  case 0
  then show ?thesis by simp
next
  case (Suc m)
  let ?l = "\<lparr>callback = Fn 0, module = ''worker'', idL = 1\<rparr>"
  let ?le = "\<lparr>callback = Fn 1, module = ''error-handler'', idL = 2\<rparr>"
  let ?w2 = "bus_throw\<lparr>eventHistory := [\<lparr>event = ''x'', data = VNum 1, timestamp = 0\<rparr>],
                       emissions := 1\<rparr>"
  have thr: "\<forall>w v. always_throws g w v = ([], Throw (Error ''boom''))" for g
    by (simp add: always_throws_def)
  have reg: "map_of (listeners bus_throw) ''rail.error'' = Some 1" "arrays bus_throw ! 1 = ?le # []"
    "callback ?le = Fn 1"
    by (simp_all add: bus_throw_def bus0_def)
  have div: "api_emit (rail_api always_throws m) w ''rail.error'' d = None"
    if "listeners w = listeners bus_throw" "arrays w = arrays bus_throw" for w d
    using reg thr that by (rule throwing_error_listener_diverges)
  then have rep: "\<forall>w e'. listeners w = listeners bus_throw \<longrightarrow> arrays w = arrays bus_throw \<longrightarrow>
      report_error (rail_api always_throws m) w (module ?l) ''x'' e' 0 = None"
    by (simp add: report_error_def)
  have cb: "callback ?l = Fn 0" by simp
  have w2: "listeners ?w2 = listeners bus_throw" "arrays ?w2 = arrays bus_throw" by simp_all
  have "dispatch_listener (rail_api always_throws m) always_throws ''x'' (VNum 1) 0 0 ?l (0, ?w2)
          = None"
    using cb thr rep w2 by (rule dispatch_thrower_None)
  moreover have "arrays ?w2 ! 0 = ?l # []"
    by (simp add: bus_throw_def bus0_def)
  ultimately have "forEach 0 (dispatch_listener (rail_api always_throws m) always_throws ''x'' (VNum 1) 0 0)
          (0, ?w2) = None"
    by (intro forEach_first_None)
  with Suc show ?thesis
    by (simp add: emit_def default_data_def Let_def bus_throw_def bus0_def)
qed

text \<open>
  For the same reason \<open>emitAsync('x', 1)\<close> is not fulfilled with these listeners,
  whatever the order in which the activations are resumed.
\<close>

lemma emitAsync_diverges_if_error_listener_throws:
  "emitAsync (rail_api always_throws n) always_throws bus_throw ''x'' (VNum 1) schedule = None"
proof -
  let ?l = "\<lparr>callback = Fn 0, module = ''worker'', idL = 1\<rparr>"
  let ?le = "\<lparr>callback = Fn 1, module = ''error-handler'', idL = 2\<rparr>"
  let ?w2 = "bus_throw\<lparr>eventHistory := [\<lparr>event = ''x'', data = VNum 1, timestamp = 0\<rparr>],
                       emissions := 1\<rparr>"
  let ?own = "\<lparr>d_emission = 0, d_event = ''x'', d_listener = ?l, d_payload = Some (VNum 1)\<rparr>"
  have thr: "\<forall>w v. always_throws g w v = ([], Throw (Error ''boom''))" for g
    by (simp add: always_throws_def)
  have reg: "map_of (listeners bus_throw) ''rail.error'' = Some 1" "arrays bus_throw ! 1 = ?le # []"
    "callback ?le = Fn 1"
    by (simp_all add: bus_throw_def bus0_def)
  have div: "api_emit (rail_api always_throws n) w ''rail.error'' d = None"
    if "listeners w = listeners bus_throw" "arrays w = arrays bus_throw" for w d
    using reg thr that by (rule throwing_error_listener_diverges)
  then have rep: "report_error (rail_api always_throws n) w ''worker'' ''x'' e' 0 = None"
    if "listeners w = listeners bus_throw" "arrays w = arrays bus_throw" for w e'
    using that by (simp add: report_error_def)
  have flags: "clone bus_throw = True" "heap bus_throw = []"
    by (simp_all add: bus_throw_def bus0_def)
  have "start_activation (rail_api always_throws n) always_throws ''x'' (VNum 1) 0 0 ?l ([], ?w2)
          = None"
    by (simp add: start_activation_def prepare_payload_def this_deepClone_def call_callback_def
          run_script_def always_throws_def rep flags Let_def)
  moreover have "arrays ?w2 ! 0 = ?l # []"
    by (simp add: bus_throw_def bus0_def)
  ultimately have "forEach 0 (start_activation (rail_api always_throws n) always_throws ''x'' (VNum 1) 0 0)
          ([], ?w2) = None"
    by (intro forEach_first_None)
  then show ?thesis
    by (simp add: emitAsync_def default_data_def Let_def bus_throw_def bus0_def)
qed

subsection \<open>Entries of an asynchronous emission\<close>














subsection \<open>A connect callback that throws\<close>

text \<open>
  Claim C4 fails on the code: \<open>attach\<close> fails with the message of the underlying error
  and the module is deleted from \<open>this.modules\<close>, but the listener that \<open>connect\<close>
  registered before it threw is still in the registry.
\<close>

theorem attach_failed_connect_leaves_listener:
  "attach rec failing_connect bus0 (ModuleObj (VStr ''bad'') (Some 0) None)
     = Some (Inl (Error (''Failed to connect module '' @ quoted ''bad'' @ '': boom'')),
             bus0\<lparr>listeners := [(''x'', 0)], listenerIdCounter := 1,
                  arrays := [[\<lparr>callback = Fn 1, module = ''bad'', idL = 1\<rparr>]]\<rparr>) \<and>
   getModules (bus0\<lparr>listeners := [(''x'', 0)], listenerIdCounter := 1,
                  arrays := [[\<lparr>callback = Fn 1, module = ''bad'', idL = 1\<rparr>]]\<rparr>) = [] \<and>
   listenersOf (bus0\<lparr>listeners := [(''x'', 0)], listenerIdCounter := 1,
                  arrays := [[\<lparr>callback = Fn 1, module = ''bad'', idL = 1\<rparr>]]\<rparr>) ''x''
     = [\<lparr>callback = Fn 1, module = ''bad'', idL = 1\<rparr>]"
  by (simp add: attach_def failing_connect_def bus0_def run_script_def run_action_def on_def
        getModules_def listenersOf_def Let_def)

subsection \<open>Waiting for an event that never comes\<close>

text \<open>
  Claim C7 fails on the code when the timer fires first: the promise is rejected with
  the timeout error, and the listener registered by \<open>waitFor\<close> stays in the registry
  (the function given to \<open>setTimeout\<close> only rejects).
\<close>

theorem waitFor_timeout_leaves_listener:
  "promises (fire_timer (snd (waitFor bus0 ''never'' (Some 50))) 0) ! fst (waitFor bus0 ''never'' (Some 50))
      = Rejected (Error (''Timeout waiting for event '' @ quoted ''never'')) \<and>
   listenersOf (fire_timer (snd (waitFor bus0 ''never'' (Some 50))) 0) ''never''
      = [\<lparr>callback = WaitForCb 0 0, module = ''wait-for'', idL = 1\<rparr>]"
  by (simp add: waitFor_def fire_timer_def settle_promise_def on_def bus0_def listenersOf_def Let_def)

subsection \<open>Callbacks that return promises\<close>












subsection \<open>History queries\<close>

lemma slice_from_last:
  assumes "0 < l"
  shows "slice_from xs (- l) = drop (length xs - nat l) xs"
proof -
  from assms have neg: "- l < 0" by simp
  have "nat (max (int (length xs) + - l) 0) = length xs - nat l"
    using assms by (simp add: max_def nat_diff_distrib)
  with neg show ?thesis by (simp add: slice_from_def Let_def)
qed

text \<open>
  Claim C10. \<open>getHistory(0)\<close> returns the whole history buffer (so a non-empty history
  gives a non-empty answer), because \<open>slice(-0)\<close> is \<open>slice(0)\<close>; for a positive limit
  the answer is the last \<open>min(limit, length)\<close> entries, in the order they were emitted.
\<close>

theorem getHistory_limits:
  "getHistory w (Some 0) = eventHistory w \<and>
   (eventHistory w \<noteq> [] \<longrightarrow> getHistory w (Some 0) \<noteq> []) \<and>
   (0 < l \<longrightarrow>
      getHistory w (Some l)
        = drop (length (eventHistory w) - min (nat l) (length (eventHistory w))) (eventHistory w) \<and>
      length (getHistory w (Some l)) = min (nat l) (length (eventHistory w)))"
proof -
  have zero: "getHistory w (Some 0) = eventHistory w"
    by (simp add: getHistory_def slice_from_def)
  have pos: "getHistory w (Some l) = drop (length (eventHistory w) - nat l) (eventHistory w)"
    if "0 < l"
    using that by (simp add: getHistory_def slice_from_last)
  show ?thesis
    using zero pos by (auto simp: min_def)
qed

theorem getHistory_limits_witness:
  "getHistory (bus0\<lparr>eventHistory := history3\<rparr>) (Some 0) = history3 \<and>
   getHistory (bus0\<lparr>eventHistory := history3\<rparr>) (Some 0) \<noteq> [] \<and>
   getHistory (bus0\<lparr>eventHistory := history3\<rparr>) (Some 2) = drop 1 history3 \<and>
   getHistory (bus0\<lparr>eventHistory := history3\<rparr>) (Some 5) = history3"
  using getHistory_limits [of "bus0\<lparr>eventHistory := history3\<rparr>" 2]
        getHistory_limits [of "bus0\<lparr>eventHistory := history3\<rparr>" 5]
  by (simp add: history3_def)

end
